theory Spec2Isabelle
  imports Main "HOL-Library.Word" "HOL-Library.Multiset"
begin

section \<open>Configuration and shared state of the ingestion server\<close>

text \<open>
  The server keeps its tuning knobs in package-level constants
  (\<^verbatim>\<open>channelBufferSize\<close>, \<^verbatim>\<open>workerCount\<close>, \<^verbatim>\<open>batchSize\<close>) and the expected
  total in the package-level variable \<^verbatim>\<open>totalMessages\<close>, which is never assigned
  after its initialisation. The model passes them around as one record, so that a
  property can be stated for every choice of the constants; \<open>server_config\<close> below
  holds the values written in the source. \<^verbatim>\<open>totalMessages\<close> is only ever read as
  \<^verbatim>\<open>int64(totalMessages)\<close>, in the comparison with the counter, and the record holds
  that value.
\<close>

type_synonym int64 = "64 word"

record config =
  channelBufferSize :: nat
  workerCount :: nat
  batchSize :: nat
  totalMessages :: int64

definition clientCount :: int64 where
  "clientCount = 10"

definition messagesPerClient :: int64 where
  "messagesPerClient = 100000"

definition server_config :: config where
  "server_config =
     \<lparr> channelBufferSize = 500000, workerCount = 4, batchSize = 5000,
       totalMessages = clientCount * messagesPerClient \<rparr>"

text \<open>
  The lines the server can print while it ingests: one per failed \<^verbatim>\<open>db.Exec\<close>
  (the two worker variants carry the worker's id) and the completion line of each mode.
\<close>

datatype log_line =
    NaiveDbError
  | BufferedWorkerError nat
  | BulkWorkerError nat
  | NaiveDone
  | BufferedDone
  | BulkDone

text \<open>
  The state shared by all goroutines: the counter \<^verbatim>\<open>insertedCount\<close> (an \<^verbatim>\<open>int64\<close>,
  so additions wrap), every call of \<^verbatim>\<open>db.Exec\<close> made so far with its statement and
  its bound arguments (oldest first), and the lines logged so far (oldest first).
\<close>

record server_state =
  insertedCount :: int64
  execs :: "(string \<times> string list) list"
  logs :: "log_line list"

definition init_state :: server_state where
  "init_state = \<lparr> insertedCount = 0, execs = [], logs = [] \<rparr>"

text \<open>
  The database is outside the program. All the server looks at is whether a call of
  \<^verbatim>\<open>db.Exec\<close> returns an error, so a database is modelled by that answer, as a
  function of the calls made before and of the call itself. \<open>dbExec\<close> records the
  call and returns the answer (\<open>True\<close>: \<^verbatim>\<open>err != nil\<close>).
\<close>

type_synonym sql_DB = "(string \<times> string list) list \<Rightarrow> string \<Rightarrow> string list \<Rightarrow> bool"

definition dbExec :: "sql_DB \<Rightarrow> string \<Rightarrow> string list \<Rightarrow> server_state \<Rightarrow> bool \<times> server_state" where
  "dbExec db query args s = (db (execs s) query args, s\<lparr> execs := execs s @ [(query, args)] \<rparr>)"

definition logPrint :: "log_line \<Rightarrow> server_state \<Rightarrow> server_state" where
  "logPrint l s = s\<lparr> logs := logs s @ [l] \<rparr>"

definition atomicAddInt64 :: "int64 \<Rightarrow> server_state \<Rightarrow> server_state" where
  "atomicAddInt64 delta s = s\<lparr> insertedCount := insertedCount s + delta \<rparr>"

definition atomicLoadInt64 :: "server_state \<Rightarrow> int64" where
  "atomicLoadInt64 s = insertedCount s"

section \<open>Building the multi-value statement\<close>

text \<open>
  \<^verbatim>\<open>fmt.Sprintf("%d", n)\<close> for a non-negative \<open>n\<close>: the decimal digits, most
  significant first, without leading zeros.
\<close>

definition digit :: "nat \<Rightarrow> char" where
  "digit d = ''0123456789'' ! d"

function itoa :: "nat \<Rightarrow> string" where
  "itoa n = (if n < 10 then [digit n] else itoa (n div 10) @ [digit (n mod 10)])"
  by pat_completeness auto
termination
  by (relation "measure (\<lambda>n. n)") auto

declare itoa.simps [simp del]

text \<open>
  \<^verbatim>\<open>strings.Join(elems, sep)\<close>: nothing for no element, the element itself for one,
  otherwise the elements with \<open>sep\<close> between neighbours.
\<close>

fun strings_Join :: "string list \<Rightarrow> string \<Rightarrow> string" where
  "strings_Join [] sep = []"
| "strings_Join [x] sep = x"
| "strings_Join (x # y # ys) sep = x @ sep @ strings_Join (y # ys) sep"

text \<open>
  The loop of \<^verbatim>\<open>buildBulkInsert\<close>: \<open>i\<close> is the index of the head of the rest of
  the batch, \<open>vals\<close> and \<open>args\<close> are the two slices being appended to.
\<close>

fun buildLoop :: "nat \<Rightarrow> string list \<Rightarrow> string list \<Rightarrow> string list
    \<Rightarrow> string list \<times> string list" where
  "buildLoop i [] vals args = (vals, args)"
| "buildLoop i (msg # rest) vals args =
     buildLoop (i + 1) rest (vals @ [''($'' @ itoa (i + 1) @ '')'']) (args @ [msg])"

definition insertPrefix :: string where
  "insertPrefix = ''INSERT INTO messages (payload) VALUES ''"

definition buildBulkInsert :: "string list \<Rightarrow> string \<times> string list" where
  "buildBulkInsert batch =
     (case buildLoop 0 batch [] [] of
        (vals, args) \<Rightarrow> (insertPrefix @ strings_Join vals '','', args))"

text \<open>The statement of the naive and the buffered mode, with its single placeholder.\<close>

definition insertOne :: string where
  "insertOne = ''INSERT INTO messages (payload) VALUES ($1)''"

section \<open>The three ingestion paths, one goroutine at a time\<close>

text \<open>
  What one goroutine does for one message, with no other goroutine running in between.
  The naive handler and the buffered worker differ only in where the message comes from
  and in the lines they log.
\<close>

definition reportDone :: "config \<Rightarrow> log_line \<Rightarrow> server_state \<Rightarrow> server_state" where
  "reportDone cfg done s =
     (if atomicLoadInt64 s = totalMessages cfg then logPrint done s else s)"

definition insertMessage :: "config \<Rightarrow> log_line \<Rightarrow> log_line \<Rightarrow> sql_DB \<Rightarrow> string
    \<Rightarrow> server_state \<Rightarrow> server_state" where
  "insertMessage cfg failed done db msg s =
     (case dbExec db insertOne [msg] s of
        (err, s1) \<Rightarrow>
          reportDone cfg done
            (atomicAddInt64 1 (if err then logPrint failed s1 else s1)))"

text \<open>
  The handler of the naive mode: \<^verbatim>\<open>c.ReadMessage()\<close> yields a frame or an error; the
  handler returns at the first error and otherwise inserts the frame at once. A
  connection that delivers nothing more leaves the handler waiting in the read.
\<close>

datatype read_result = Frame string | ReadError

fun runNaive :: "config \<Rightarrow> sql_DB \<Rightarrow> read_result list \<Rightarrow> server_state \<Rightarrow> server_state" where
  "runNaive cfg db [] s = s"
| "runNaive cfg db (ReadError # rest) s = s"
| "runNaive cfg db (Frame msg # rest) s =
     runNaive cfg db rest (insertMessage cfg NaiveDbError NaiveDone db msg s)"

text \<open>
  A worker of the buffered mode: \<^verbatim>\<open>for msg := range ch\<close>, over the messages this
  worker receives from the channel.
\<close>

fun bufferedWorker :: "config \<Rightarrow> nat \<Rightarrow> sql_DB \<Rightarrow> string list \<Rightarrow> server_state \<Rightarrow> server_state" where
  "bufferedWorker cfg wid db [] s = s"
| "bufferedWorker cfg wid db (msg # rest) s =
     bufferedWorker cfg wid db rest
       (insertMessage cfg (BufferedWorkerError wid) BufferedDone db msg s)"

text \<open>
  The closure \<^verbatim>\<open>flush\<close> of \<^verbatim>\<open>bulkInsertWorker\<close>. It reads and assigns the worker's
  variable \<^verbatim>\<open>batch\<close>, which the model passes in and returns next to the shared state.
\<close>

definition flush :: "config \<Rightarrow> nat \<Rightarrow> sql_DB \<Rightarrow> string list \<times> server_state
    \<Rightarrow> string list \<times> server_state" where
  "flush cfg wid db bs =
     (case bs of
        (batch, s) \<Rightarrow>
          if length batch = 0 then (batch, s)
          else
            (case buildBulkInsert batch of
               (query, args) \<Rightarrow>
                 (case dbExec db query args s of
                    (err, s1) \<Rightarrow>
                      ([], reportDone cfg BulkDone
                             (atomicAddInt64 (of_nat (length batch))
                                (if err then logPrint (BulkWorkerError wid) s1 else s1))))))"

text \<open>
  The \<^verbatim>\<open>select\<close> loop of \<^verbatim>\<open>bulkInsertWorker\<close> never returns; the model runs it
  over the events the worker observes, in the order it observes them: a message
  received from the channel or a tick of the ticker. \<open>onRecv\<close> is the first case of the
  \<^verbatim>\<open>select\<close>.
\<close>

datatype event = Recv string | Tick

definition onRecv :: "config \<Rightarrow> nat \<Rightarrow> sql_DB \<Rightarrow> string \<Rightarrow> string list \<times> server_state
    \<Rightarrow> string list \<times> server_state" where
  "onRecv cfg wid db msg bs =
     (case bs of
        (batch, s) \<Rightarrow>
          if length (batch @ [msg]) \<ge> batchSize cfg
          then flush cfg wid db (batch @ [msg], s)
          else (batch @ [msg], s))"

fun bulkInsertWorker :: "config \<Rightarrow> nat \<Rightarrow> sql_DB \<Rightarrow> event list \<Rightarrow> string list \<times> server_state
    \<Rightarrow> string list \<times> server_state" where
  "bulkInsertWorker cfg wid db [] bs = bs"
| "bulkInsertWorker cfg wid db (Recv msg # evs) bs =
     bulkInsertWorker cfg wid db evs (onRecv cfg wid db msg bs)"
| "bulkInsertWorker cfg wid db (Tick # evs) bs =
     bulkInsertWorker cfg wid db evs (flush cfg wid db bs)"

section \<open>The goroutines running together\<close>

text \<open>
  The server runs one handler goroutine per connection and, in the buffered and the bulk
  mode, \<^verbatim>\<open>workerCount\<close> worker goroutines. They share the channel, the database and
  \<^verbatim>\<open>insertedCount\<close>. Each goroutine is modelled by the place it has reached in its
  loop; one step of the system is one goroutine passing one operation on shared state
  (a read from its connection, a channel operation, \<^verbatim>\<open>db.Exec\<close>,
  \<^verbatim>\<open>atomic.AddInt64\<close>, \<^verbatim>\<open>atomic.LoadInt64\<close> with the comparison and the log line
  that follow it). A schedule is the list of such steps in the order they happen.
\<close>

datatype mode = Naive | Buffered | Bulk

text \<open>
  A handler is in \<^verbatim>\<open>c.ReadMessage()\<close>, or holds a message it is sending to the
  channel (buffered, bulk), or is at one of the three operations of the naive loop, or
  has returned after a read error.
\<close>

datatype handler = Reading | Sending string | Inserting string | Adding | Loading | Returned

text \<open>
  A worker is at its receive (\<^verbatim>\<open>range ch\<close>, \<^verbatim>\<open>select\<close>) or at one of the three
  operations that follow; with it goes what it holds: the loop variable \<^verbatim>\<open>msg\<close> of a
  buffered worker (a list of one message), the slice \<^verbatim>\<open>batch\<close> of a bulk worker.
\<close>

datatype place = Receiving | AtExec | AtAdd | AtLoad

type_synonym worker = "place \<times> string list"

text \<open>
  \<open>delivered\<close> is not a variable of the program: it lists the messages that
  \<^verbatim>\<open>c.ReadMessage()\<close> has returned over all connections, in the order of the reads.
\<close>

record system =
  shared :: server_state
  chan :: "string list"
  handlers :: "handler list"
  workers :: "worker list"
  delivered :: "string list"

definition init_system :: "nat \<Rightarrow> nat \<Rightarrow> system" where
  "init_system connections nworkers =
     \<lparr> shared = init_state, chan = [], handlers = replicate connections Reading,
       workers = replicate nworkers (Receiving, []), delivered = [] \<rparr>"

datatype action =
    ReadFails nat
  | ReadFrame nat string
  | Send nat
  | RecvMsg nat
  | TickAt nat
  | DoExec nat
  | DoAdd nat
  | DoLoad nat

definition handlerAt :: "system \<Rightarrow> nat \<Rightarrow> handler option" where
  "handlerAt s h = (if h < length (handlers s) then Some (handlers s ! h) else None)"

definition workerAt :: "system \<Rightarrow> nat \<Rightarrow> worker option" where
  "workerAt s w = (if w < length (workers s) then Some (workers s ! w) else None)"

definition setHandler :: "nat \<Rightarrow> handler \<Rightarrow> system \<Rightarrow> system" where
  "setHandler h x s = s\<lparr> handlers := (handlers s)[h := x] \<rparr>"

definition setWorker :: "nat \<Rightarrow> worker \<Rightarrow> system \<Rightarrow> system" where
  "setWorker w x s = s\<lparr> workers := (workers s)[w := x] \<rparr>"

definition execAndLog :: "sql_DB \<Rightarrow> log_line \<Rightarrow> string \<Rightarrow> string list \<Rightarrow> system \<Rightarrow> system" where
  "execAndLog db failed query args s =
     (case dbExec db query args (shared s) of
        (err, s1) \<Rightarrow> s\<lparr> shared := (if err then logPrint failed s1 else s1) \<rparr>)"

text \<open>
  \<open>fire\<close> is one step; \<open>None\<close> says that the goroutine is not at that operation or
  that the operation cannot proceed now (a send to a full channel, a receive from an
  empty one).
\<close>

fun fire :: "config \<Rightarrow> sql_DB \<Rightarrow> mode \<Rightarrow> action \<Rightarrow> system \<Rightarrow> system option" where
  "fire cfg db md (ReadFails h) s =
     (if handlerAt s h = Some Reading then Some (setHandler h Returned s) else None)"
| "fire cfg db Naive (ReadFrame h msg) s =
     (if handlerAt s h = Some Reading
      then Some (setHandler h (Inserting msg) (s\<lparr> delivered := delivered s @ [msg] \<rparr>))
      else None)"
| "fire cfg db Naive (DoExec h) s =
     (case handlerAt s h of
        Some (Inserting msg) \<Rightarrow>
          Some (setHandler h Adding (execAndLog db NaiveDbError insertOne [msg] s))
      | _ \<Rightarrow> None)"
| "fire cfg db Naive (DoAdd h) s =
     (if handlerAt s h = Some Adding
      then Some (setHandler h Loading (s\<lparr> shared := atomicAddInt64 1 (shared s) \<rparr>))
      else None)"
| "fire cfg db Naive (DoLoad h) s =
     (if handlerAt s h = Some Loading
      then Some (setHandler h Reading (s\<lparr> shared := reportDone cfg NaiveDone (shared s) \<rparr>))
      else None)"
| "fire cfg db Naive (Send h) s = None"
| "fire cfg db Naive (RecvMsg w) s = None"
| "fire cfg db Naive (TickAt w) s = None"
| "fire cfg db md (ReadFrame h msg) s =
     (if handlerAt s h = Some Reading
      then Some (setHandler h (Sending msg) (s\<lparr> delivered := delivered s @ [msg] \<rparr>))
      else None)"
| "fire cfg db md (Send h) s =
     (case handlerAt s h of
        Some (Sending msg) \<Rightarrow>
          if length (chan s) < channelBufferSize cfg
          then Some (setHandler h Reading (s\<lparr> chan := chan s @ [msg] \<rparr>))
          else None
      | _ \<Rightarrow> None)"
| "fire cfg db Buffered (RecvMsg w) s =
     (case workerAt s w of
        Some (pl, held) \<Rightarrow>
          (case chan s of
             msg # rest \<Rightarrow>
               if pl = Receiving then Some (setWorker w (AtExec, [msg]) (s\<lparr> chan := rest \<rparr>))
               else None
           | [] \<Rightarrow> None)
      | None \<Rightarrow> None)"
| "fire cfg db Buffered (TickAt w) s = None"
| "fire cfg db Buffered (DoExec w) s =
     (case workerAt s w of
        Some (pl, held) \<Rightarrow>
          (case held of
             [msg] \<Rightarrow>
               if pl = AtExec
               then Some (setWorker w (AtAdd, [msg])
                            (execAndLog db (BufferedWorkerError w) insertOne [msg] s))
               else None
           | _ \<Rightarrow> None)
      | None \<Rightarrow> None)"
| "fire cfg db Buffered (DoAdd w) s =
     (case workerAt s w of
        Some (pl, held) \<Rightarrow>
          if pl = AtAdd
          then Some (setWorker w (AtLoad, held) (s\<lparr> shared := atomicAddInt64 1 (shared s) \<rparr>))
          else None
      | None \<Rightarrow> None)"
| "fire cfg db Buffered (DoLoad w) s =
     (case workerAt s w of
        Some (pl, held) \<Rightarrow>
          if pl = AtLoad
          then Some (setWorker w (Receiving, [])
                       (s\<lparr> shared := reportDone cfg BufferedDone (shared s) \<rparr>))
          else None
      | None \<Rightarrow> None)"
| "fire cfg db Bulk (RecvMsg w) s =
     (case workerAt s w of
        Some (pl, batch) \<Rightarrow>
          (case chan s of
             msg # rest \<Rightarrow>
               if pl = Receiving
               then Some (setWorker w
                            (if length (batch @ [msg]) \<ge> batchSize cfg then AtExec else Receiving,
                             batch @ [msg])
                            (s\<lparr> chan := rest \<rparr>))
               else None
           | [] \<Rightarrow> None)
      | None \<Rightarrow> None)"
| "fire cfg db Bulk (TickAt w) s =
     (case workerAt s w of
        Some (pl, batch) \<Rightarrow>
          if pl = Receiving
          then Some (setWorker w (if length batch = 0 then Receiving else AtExec, batch) s)
          else None
      | None \<Rightarrow> None)"
| "fire cfg db Bulk (DoExec w) s =
     (case workerAt s w of
        Some (pl, batch) \<Rightarrow>
          if pl = AtExec
          then (case buildBulkInsert batch of
                  (query, args) \<Rightarrow>
                    Some (setWorker w (AtAdd, batch)
                            (execAndLog db (BulkWorkerError w) query args s)))
          else None
      | None \<Rightarrow> None)"
| "fire cfg db Bulk (DoAdd w) s =
     (case workerAt s w of
        Some (pl, batch) \<Rightarrow>
          if pl = AtAdd
          then Some (setWorker w (AtLoad, batch)
                       (s\<lparr> shared := atomicAddInt64 (of_nat (length batch)) (shared s) \<rparr>))
          else None
      | None \<Rightarrow> None)"
| "fire cfg db Bulk (DoLoad w) s =
     (case workerAt s w of
        Some (pl, batch) \<Rightarrow>
          if pl = AtLoad
          then Some (setWorker w (Receiving, [])
                       (s\<lparr> shared := reportDone cfg BulkDone (shared s) \<rparr>))
          else None
      | None \<Rightarrow> None)"

fun run :: "config \<Rightarrow> sql_DB \<Rightarrow> mode \<Rightarrow> action list \<Rightarrow> system \<Rightarrow> system option" where
  "run cfg db md [] s = Some s"
| "run cfg db md (a # as) s =
     (case fire cfg db md a s of None \<Rightarrow> None | Some s' \<Rightarrow> run cfg db md as s')"

text \<open>
  Nothing is left to do: every handler waits for its connection or has returned, the
  channel is empty, and every worker waits at its receive holding nothing.
\<close>

definition idle :: "system \<Rightarrow> bool" where
  "idle s \<longleftrightarrow>
     chan s = []
     \<and> list_all (\<lambda>h. h = Reading \<or> h = Returned) (handlers s)
     \<and> list_all (\<lambda>w. w = (Receiving, [])) (workers s)"

section \<open>Accounting for the messages in flight\<close>

text \<open>
  Where a delivered message can be before it has been handed to \<^verbatim>\<open>db.Exec\<close>, and
  before it has been added to \<^verbatim>\<open>insertedCount\<close>: in the channel, in the hands of a
  handler, or in the hands of a worker. A bulk worker keeps its batch until the load
  that follows the addition; a buffered worker holds one message from its receive to its
  addition.
\<close>

fun handlerUnwritten :: "handler \<Rightarrow> string list" where
  "handlerUnwritten (Sending msg) = [msg]"
| "handlerUnwritten (Inserting msg) = [msg]"
| "handlerUnwritten h = []"

fun handlerUncounted :: "handler \<Rightarrow> nat" where
  "handlerUncounted (Sending msg) = 1"
| "handlerUncounted (Inserting msg) = 1"
| "handlerUncounted Adding = 1"
| "handlerUncounted h = 0"

fun workerUnwritten :: "mode \<Rightarrow> worker \<Rightarrow> string list" where
  "workerUnwritten Bulk (pl, held) = (if pl = Receiving \<or> pl = AtExec then held else [])"
| "workerUnwritten md (pl, held) = (if pl = AtExec then held else [])"

fun workerUncounted :: "mode \<Rightarrow> worker \<Rightarrow> nat" where
  "workerUncounted Bulk (pl, held) = (if pl = AtLoad then 0 else length held)"
| "workerUncounted md (pl, held) = (if pl = AtExec \<or> pl = AtAdd then 1 else 0)"

definition written :: "system \<Rightarrow> string list" where
  "written s = concat (map snd (execs (shared s)))"

definition occurrences :: "string \<Rightarrow> string list \<Rightarrow> int" where
  "occurrences x xs = int (count_list xs x)"

definition outstanding :: "mode \<Rightarrow> string \<Rightarrow> system \<Rightarrow> int" where
  "outstanding md x s =
     occurrences x (chan s)
     + (\<Sum>h\<leftarrow>handlers s. occurrences x (handlerUnwritten h))
     + (\<Sum>w\<leftarrow>workers s. occurrences x (workerUnwritten md w))"

definition uncounted :: "mode \<Rightarrow> system \<Rightarrow> int64" where
  "uncounted md s =
     of_nat (length (chan s))
     + (\<Sum>h\<leftarrow>handlers s. of_nat (handlerUncounted h))
     + (\<Sum>w\<leftarrow>workers s. of_nat (workerUncounted md w))"

section \<open>Predicates on executed statements, and sample databases\<close>

text \<open>
  A statement as \<^verbatim>\<open>buildBulkInsert\<close> builds it from a batch that is not empty, and a
  statement that binds no more than \<^verbatim>\<open>batchSize\<close> messages.
\<close>

definition nonEmptyInsert :: "string \<times> string list \<Rightarrow> bool" where
  "nonEmptyInsert e \<longleftrightarrow> snd e \<noteq> [] \<and> e = buildBulkInsert (snd e)"

definition withinBatchSize :: "config \<Rightarrow> string \<times> string list \<Rightarrow> bool" where
  "withinBatchSize cfg e \<longleftrightarrow> length (snd e) \<le> batchSize cfg"

text \<open>
  A database that rejects every statement, one that accepts every statement, and a
  configuration with small thresholds for worked examples.
\<close>

definition failing_db :: sql_DB where
  "failing_db calls query args = True"

definition working_db :: sql_DB where
  "working_db calls query args = False"

definition small_config :: config where
  "small_config = \<lparr> channelBufferSize = 2, workerCount = 2, batchSize = 3, totalMessages = 7 \<rparr>"

text \<open>
  Schedules used as worked examples: two connections in the naive mode; one connection
  and two workers in the buffered and in the bulk mode (batches of three, the fourth
  message flushed by the ticker); and the states they end in.
\<close>

definition naive_example :: "action list" where
  "naive_example =
     [ReadFrame 0 ''m1'', ReadFrame 1 ''m2'', DoExec 1, DoExec 0, DoAdd 0, DoAdd 1,
      DoLoad 1, DoLoad 0, ReadFails 1]"

definition buffered_example :: "action list" where
  "buffered_example =
     [ReadFrame 0 ''m1'', Send 0, ReadFrame 0 ''m2'', Send 0, RecvMsg 1, RecvMsg 0,
      DoExec 0, DoExec 1, DoAdd 1, DoLoad 1, DoAdd 0, DoLoad 0]"

definition bulk_example :: "action list" where
  "bulk_example =
     [ReadFrame 0 ''m1'', Send 0, ReadFrame 0 ''m2'', Send 0, RecvMsg 0, TickAt 1, RecvMsg 0,
      ReadFrame 0 ''m3'', Send 0, ReadFrame 0 ''m4'', RecvMsg 0, Send 0,
      DoExec 0, RecvMsg 1, DoAdd 0, DoLoad 0, TickAt 1, DoExec 1, DoAdd 1, DoLoad 1, TickAt 0]"

definition naive_example_end :: system where
  "naive_example_end =
     \<lparr> shared = \<lparr> insertedCount = 2,
                  execs = [(''INSERT INTO messages (payload) VALUES ($1)'', [''m2'']),
                           (''INSERT INTO messages (payload) VALUES ($1)'', [''m1''])],
                  logs = [] \<rparr>,
       chan = [], handlers = [Reading, Returned], workers = [],
       delivered = [''m1'', ''m2''] \<rparr>"

definition buffered_example_end :: system where
  "buffered_example_end =
     \<lparr> shared = \<lparr> insertedCount = 2,
                  execs = [(''INSERT INTO messages (payload) VALUES ($1)'', [''m2'']),
                           (''INSERT INTO messages (payload) VALUES ($1)'', [''m1''])],
                  logs = [] \<rparr>,
       chan = [], handlers = [Reading], workers = [(Receiving, []), (Receiving, [])],
       delivered = [''m1'', ''m2''] \<rparr>"

definition bulk_example_end :: system where
  "bulk_example_end =
     \<lparr> shared = \<lparr> insertedCount = 4,
                  execs = [(''INSERT INTO messages (payload) VALUES ($1),($2),($3)'',
                              [''m1'', ''m2'', ''m3'']),
                           (''INSERT INTO messages (payload) VALUES ($1)'', [''m4''])],
                  logs = [] \<rparr>,
       chan = [], handlers = [Reading], workers = [(Receiving, []), (Receiving, [])],
       delivered = [''m1'', ''m2'', ''m3'', ''m4''] \<rparr>"

definition full_channel :: system where
  "full_channel =
     \<lparr> shared = init_state, chan = [''m1'', ''m2''],
       handlers = [Reading, Reading, Sending ''m3''],
       workers = [(Receiving, []), (Receiving, [])],
       delivered = [''m1'', ''m2'', ''m3''] \<rparr>"

text \<open>
  A schedule of the buffered mode under the source's configuration: \<open>warm_up\<close>
  messages go through one after the other, each read, sent, received, inserted, added
  and checked before the next is read; then two connections deliver one message each
  and two workers insert them, both adding before either loads. \<open>quiet c\<close> describes
  the states in between: \<open>c\<close> messages delivered and counted, nothing in flight, no
  completion line yet.
\<close>

definition one_by_one :: "string \<Rightarrow> action list" where
  "one_by_one msg = [ReadFrame 0 msg, Send 0, RecvMsg 0, DoExec 0, DoAdd 0, DoLoad 0]"

definition racing_pair :: "action list" where
  "racing_pair =
     [ReadFrame 0 ''a'', Send 0, ReadFrame 1 ''b'', Send 1, RecvMsg 0, RecvMsg 1,
      DoExec 0, DoExec 1, DoAdd 0, DoAdd 1, DoLoad 0, DoLoad 1]"

definition warm_up :: nat where
  "warm_up = 999998"

definition double_done_schedule :: "action list" where
  "double_done_schedule = concat (replicate warm_up (one_by_one ''m'')) @ racing_pair"

definition quiet :: "nat \<Rightarrow> system \<Rightarrow> bool" where
  "quiet c s \<longleftrightarrow>
     handlers s = [Reading, Reading]
     \<and> workers s = [(Receiving, []), (Receiving, []), (Receiving, []), (Receiving, [])]
     \<and> chan s = []
     \<and> insertedCount (shared s) = of_nat c
     \<and> length (delivered s) = c
     \<and> filter (\<lambda>l. l = BufferedDone) (logs (shared s)) = []"

section \<open>Properties of the statement builder\<close>

definition placeholder :: "nat \<Rightarrow> string" where
  "placeholder k = ''($'' @ itoa k @ '')''"

lemma digit_not_dollar: "d < 10 \<Longrightarrow> digit d \<noteq> CHR ''$''"
  by (auto simp: digit_def numeral_eq_Suc less_Suc_eq)

lemma itoa_no_dollar: "count_list (itoa n) CHR ''$'' = 0"
proof (induction n rule: itoa.induct)
  case (1 n)
  show ?case
  proof (cases "n < 10")
    case True
    then show ?thesis
      by (subst itoa.simps) (simp add: digit_not_dollar)
  next
    case False
    then have "count_list (itoa (n div 10)) CHR ''$'' = 0"
      using "1" by simp
    moreover have "digit (n mod 10) \<noteq> CHR ''$''"
      by (rule digit_not_dollar) simp
    ultimately show ?thesis
      using False by (subst itoa.simps) simp
  qed
qed

lemma count_list_append:
  "count_list (xs @ ys) a = count_list xs a + count_list ys a"
  by (induction xs) auto

lemma placeholder_one_dollar: "count_list (placeholder k) CHR ''$'' = 1"
  by (simp add: placeholder_def count_list_append itoa_no_dollar)

lemma buildLoop_eq:
  "buildLoop i batch vals args =
     (vals @ map placeholder [Suc i ..< Suc (i + length batch)], args @ batch)"
proof (induction batch arbitrary: i vals args)
  case Nil
  then show ?case by simp
next
  case (Cons msg rest)
  have "[Suc i ..< Suc (i + length (msg # rest))]
      = Suc i # [Suc (Suc i) ..< Suc (Suc i + length rest)]"
    by (subst upt_rec) simp
  then show ?case
    using Cons.IH [of "Suc i"] by (simp add: placeholder_def del: upt_Suc)
qed

lemma count_Join_placeholders:
  "count_list (strings_Join (map placeholder ks) '','') CHR ''$'' = length ks"
proof (induction ks rule: induct_list012)
  case 1
  then show ?case by simp
next
  case (2 k)
  then show ?case by (simp add: placeholder_one_dollar)
next
  case (3 k k' ks)
  then show ?case
    by (simp add: count_list_append placeholder_one_dollar)
qed

lemma buildBulkInsert_eq:
  "buildBulkInsert batch =
     (insertPrefix @ strings_Join (map placeholder [1 ..< Suc (length batch)]) '','', batch)"
  by (simp add: buildBulkInsert_def buildLoop_eq del: upt_Suc)

lemma insertPrefix_no_dollar: "count_list insertPrefix CHR ''$'' = 0"
  by (simp add: insertPrefix_def)

text \<open>
  C3. For a non-empty batch of length \<open>n\<close>, the statement built by
  \<^verbatim>\<open>buildBulkInsert\<close> is the fixed prefix followed by the tuples \<open>($1)\<close>, ...,
  \<open>($n)\<close> separated by commas, it contains exactly \<open>n\<close> placeholder signs, and the
  argument list is the batch itself: same length, same message at every index.
\<close>

theorem buildBulkInsert_placeholders_and_args:
  assumes "batch \<noteq> []"
  shows "fst (buildBulkInsert batch) =
           insertPrefix @ strings_Join (map (\<lambda>k. ''($'' @ itoa k @ '')'') [1 ..< Suc (length batch)]) '',''
       \<and> count_list (fst (buildBulkInsert batch)) CHR ''$'' = length batch
       \<and> length (snd (buildBulkInsert batch)) = length batch
       \<and> (\<forall>i < length batch. snd (buildBulkInsert batch) ! i = batch ! i)"
proof -
  have p: "placeholder = (\<lambda>k. ''($'' @ itoa k @ '')'')"
    by (rule ext) (simp add: placeholder_def)
  have "fst (buildBulkInsert batch) =
      insertPrefix @ strings_Join (map (\<lambda>k. ''($'' @ itoa k @ '')'') [1 ..< Suc (length batch)]) '',''"
    by (simp add: buildBulkInsert_eq p)
  moreover have "count_list (fst (buildBulkInsert batch)) CHR ''$'' = length batch"
    by (simp add: buildBulkInsert_eq count_list_append insertPrefix_no_dollar
        count_Join_placeholders del: upt_Suc)
  moreover have "snd (buildBulkInsert batch) = batch"
    by (simp add: buildBulkInsert_eq)
  ultimately show ?thesis
    by simp
qed

theorem buildBulkInsert_placeholders_and_args_witness:
  "[''m1'', ''m2'', ''m3''] \<noteq> []
   \<and> fst (buildBulkInsert [''m1'', ''m2'', ''m3'']) =
       ''INSERT INTO messages (payload) VALUES ($1),($2),($3)''
   \<and> count_list (fst (buildBulkInsert [''m1'', ''m2'', ''m3''])) CHR ''$'' = 3
   \<and> length (snd (buildBulkInsert [''m1'', ''m2'', ''m3''])) = 3
   \<and> snd (buildBulkInsert [''m1'', ''m2'', ''m3'']) ! 2 = ''m3''"
  using buildBulkInsert_placeholders_and_args [of "[''m1'', ''m2'', ''m3'']"]
  by (simp add: insertPrefix_def itoa.simps digit_def upt_rec)

section \<open>One goroutine at a time: flush, the worker loops, the naive handler\<close>


lemma flush_Nil [simp]: "flush cfg wid db ([], s) = ([], s)"
  by (simp add: flush_def)

lemma insertedCount_reportDone [simp]:
  "insertedCount (reportDone cfg done s) = insertedCount s"
  by (simp add: reportDone_def logPrint_def)

lemma execs_reportDone [simp]: "execs (reportDone cfg done s) = execs s"
  by (simp add: reportDone_def logPrint_def)

lemma insertedCount_insertMessage:
  "insertedCount (insertMessage cfg failed done db msg s) = insertedCount s + 1"
  by (simp add: insertMessage_def dbExec_def atomicAddInt64_def logPrint_def)

lemma execs_insertMessage:
  "execs (insertMessage cfg failed done db msg s) = execs s @ [(insertOne, [msg])]"
  by (simp add: insertMessage_def dbExec_def atomicAddInt64_def logPrint_def)

lemma flush_nonempty:
  "batch \<noteq> [] \<Longrightarrow>
   fst (flush cfg wid db (batch, s)) = []
   \<and> execs (snd (flush cfg wid db (batch, s))) = execs s @ [buildBulkInsert batch]
   \<and> insertedCount (snd (flush cfg wid db (batch, s))) = insertedCount s + of_nat (length batch)"
  by (simp add: flush_def dbExec_def atomicAddInt64_def logPrint_def split: prod.splits)

lemma logs_failed:
  "db (execs s) insertOne [msg] \<Longrightarrow> failed \<in> set (logs (insertMessage cfg failed done db msg s))"
  by (simp add: insertMessage_def dbExec_def atomicAddInt64_def logPrint_def reportDone_def atomicLoadInt64_def)

lemma runNaive_count:
  "insertedCount (runNaive cfg db rs s) = insertedCount s + of_nat (length (takeWhile (\<lambda>r. r \<noteq> ReadError) rs))"
  by (induction cfg db rs s rule: runNaive.induct) (simp_all add: insertedCount_insertMessage)

lemma runNaive_frames:
  "execs (runNaive cfg db (map Frame msgs) s) = execs s @ map (\<lambda>m. (insertOne, [m])) msgs
   \<and> insertedCount (runNaive cfg db (map Frame msgs) s) = insertedCount s + of_nat (length msgs)"
  by (induction msgs arbitrary: s) (simp_all add: insertedCount_insertMessage execs_insertMessage)

lemma bufferedWorker_count:
  "insertedCount (bufferedWorker cfg wid db msgs s) = insertedCount s + of_nat (length msgs)"
  by (induction msgs arbitrary: s) (simp_all add: insertedCount_insertMessage)

lemma flush_indep:
  "insertedCount s = insertedCount s' \<Longrightarrow>
   fst (flush cfg wid db (b, s)) = fst (flush cfg wid db' (b, s'))
   \<and> insertedCount (snd (flush cfg wid db (b, s))) = insertedCount (snd (flush cfg wid db' (b, s')))"
  by (cases "b = []") (simp_all add: flush_nonempty)

lemma onRecv_indep:
  "insertedCount s = insertedCount s' \<Longrightarrow>
   fst (onRecv cfg wid db msg (b, s)) = fst (onRecv cfg wid db' msg (b, s'))
   \<and> insertedCount (snd (onRecv cfg wid db msg (b, s))) = insertedCount (snd (onRecv cfg wid db' msg (b, s')))"
  by (simp add: onRecv_def flush_nonempty)

lemma bulk_indep:
  "insertedCount s = insertedCount s' \<Longrightarrow>
   fst (bulkInsertWorker cfg wid db evs (b, s)) = fst (bulkInsertWorker cfg wid db' evs (b, s'))
   \<and> insertedCount (snd (bulkInsertWorker cfg wid db evs (b, s)))
     = insertedCount (snd (bulkInsertWorker cfg wid db' evs (b, s')))"
proof (induction evs arbitrary: b s s')
  case Nil
  then show ?case by simp
next
  case (Cons e evs)
  show ?case
  proof (cases e)
    case (Recv msg)
    obtain b1 s1 where r1: "onRecv cfg wid db msg (b, s) = (b1, s1)" by (cases "onRecv cfg wid db msg (b, s)")
    obtain b2 s2 where r2: "onRecv cfg wid db' msg (b, s') = (b2, s2)" by (cases "onRecv cfg wid db' msg (b, s')")
    from onRecv_indep [OF Cons.prems, of cfg wid db msg b db'] r1 r2
    have "b1 = b2" "insertedCount s1 = insertedCount s2" by simp_all
    then show ?thesis using Cons.IH [of s1 s2 b1] Recv r1 r2 by simp
  next
    case Tick
    obtain b1 s1 where r1: "flush cfg wid db (b, s) = (b1, s1)" by (cases "flush cfg wid db (b, s)")
    obtain b2 s2 where r2: "flush cfg wid db' (b, s') = (b2, s2)" by (cases "flush cfg wid db' (b, s')")
    from flush_indep [OF Cons.prems, of cfg wid db b db'] r1 r2
    have "b1 = b2" "insertedCount s1 = insertedCount s2" by simp_all
    then show ?thesis using Cons.IH [of s1 s2 b1] Tick r1 r2 by simp
  qed
qed

lemma snd_buildBulkInsert [simp]: "snd (buildBulkInsert batch) = batch"
  by (simp add: buildBulkInsert_eq)

text \<open>
  C7. Flushing an empty batch does nothing: no statement is executed, the counter and
  the log stay as they are (no completion line, even if the counter equals the expected
  total), and the batch stays empty.
\<close>

theorem flush_empty_is_noop: "flush cfg wid db ([], s) = ([], s)"
  by (simp add: flush_def)

text \<open>
  C5. One flush of a non-empty batch executes exactly one statement, the one built from
  the whole batch, whose arguments are the batch; it adds the batch's length to
  \<^verbatim>\<open>insertedCount\<close>; and it leaves the batch empty, whatever the database answered,
  so that the loop goes on from an empty batch and never sees the messages again.
\<close>

theorem flush_one_write_count_reset:
  assumes "batch \<noteq> []"
  shows "execs (snd (flush cfg wid db (batch, s))) = execs s @ [buildBulkInsert batch]
       \<and> snd (buildBulkInsert batch) = batch
       \<and> insertedCount (snd (flush cfg wid db (batch, s))) = insertedCount s + of_nat (length batch)
       \<and> fst (flush cfg wid db (batch, s)) = []
       \<and> bulkInsertWorker cfg wid db (Tick # evs) (batch, s)
           = bulkInsertWorker cfg wid db evs ([], snd (flush cfg wid db (batch, s)))"
proof -
  have "flush cfg wid db (batch, s) = ([], snd (flush cfg wid db (batch, s)))"
    using flush_nonempty [OF assms, of cfg wid db s] by (simp add: prod_eq_iff)
  then show ?thesis
    using flush_nonempty [OF assms, of cfg wid db s] by simp
qed

theorem flush_one_write_count_reset_witness:
  "[''a'', ''b''] \<noteq> []
   \<and> flush small_config 0 failing_db ([''a'', ''b''], init_state)
      = ([], \<lparr> insertedCount = 2,
               execs = [(''INSERT INTO messages (payload) VALUES ($1),($2)'', [''a'', ''b''])],
               logs = [BulkWorkerError 0] \<rparr>)
   \<and> flush small_config 0 working_db ([''a'', ''b''], init_state)
      = ([], \<lparr> insertedCount = 2,
               execs = [(''INSERT INTO messages (payload) VALUES ($1),($2)'', [''a'', ''b''])],
               logs = [] \<rparr>)"
  using flush_one_write_count_reset [of "[''a'', ''b'']" small_config 0 failing_db init_state "[]"]
    flush_one_write_count_reset [of "[''a'', ''b'']" small_config 0 working_db init_state "[]"]
  by (simp add: flush_def buildBulkInsert_eq insertPrefix_def placeholder_def itoa.simps digit_def
      upt_rec dbExec_def failing_db_def working_db_def init_state_def small_config_def
      atomicAddInt64_def logPrint_def reportDone_def atomicLoadInt64_def)

lemmas eval_defs =
  flush_def onRecv_def insertMessage_def buildBulkInsert_eq insertPrefix_def insertOne_def
  placeholder_def itoa.simps digit_def upt_rec dbExec_def failing_db_def working_db_def
  init_state_def small_config_def atomicAddInt64_def logPrint_def reportDone_def atomicLoadInt64_def

lemma logs_flush_failed:
  "batch \<noteq> [] \<Longrightarrow> db (execs s) (fst (buildBulkInsert batch)) batch \<Longrightarrow>
   BulkWorkerError wid \<in> set (logs (snd (flush cfg wid db (batch, s))))"
  by (simp add: flush_def buildBulkInsert_eq dbExec_def atomicAddInt64_def logPrint_def
      reportDone_def atomicLoadInt64_def)

text \<open>
  C2. A message (naive, buffered) adds one and a flushed batch (bulk) adds its length to
  \<^verbatim>\<open>insertedCount\<close> whether or not \<^verbatim>\<open>db.Exec\<close> returned an error; an error is
  logged; and the loops go on, so that after any input the counter is the same under any
  two databases.
\<close>

theorem failed_writes_are_counted:
  "insertedCount (insertMessage cfg failed done db msg s) = insertedCount s + 1
   \<and> (db (execs s) insertOne [msg] \<longrightarrow>
        failed \<in> set (logs (insertMessage cfg failed done db msg s)))
   \<and> (batch \<noteq> [] \<longrightarrow>
        insertedCount (snd (flush cfg wid db (batch, s))) = insertedCount s + of_nat (length batch))
   \<and> (batch \<noteq> [] \<and> db (execs s) (fst (buildBulkInsert batch)) batch \<longrightarrow>
        BulkWorkerError wid \<in> set (logs (snd (flush cfg wid db (batch, s)))))
   \<and> insertedCount (runNaive cfg db rs s) = insertedCount (runNaive cfg db' rs s)
   \<and> insertedCount (bufferedWorker cfg wid db msgs s)
       = insertedCount (bufferedWorker cfg wid db' msgs s)
   \<and> insertedCount (snd (bulkInsertWorker cfg wid db evs (batch, s)))
       = insertedCount (snd (bulkInsertWorker cfg wid db' evs (batch, s)))"
  using bulk_indep [of s s cfg wid db evs batch db']
  by (simp add: insertedCount_insertMessage logs_failed flush_nonempty logs_flush_failed
      runNaive_count bufferedWorker_count)

theorem failed_writes_are_counted_witness:
  "insertedCount (insertMessage small_config NaiveDbError NaiveDone failing_db ''a'' init_state) = 1
   \<and> failing_db (execs init_state) insertOne [''a'']
   \<and> NaiveDbError \<in> set (logs (insertMessage small_config NaiveDbError NaiveDone failing_db ''a'' init_state))
   \<and> [''a'', ''b''] \<noteq> []
   \<and> insertedCount (snd (flush small_config 0 failing_db ([''a'', ''b''], init_state))) = 2
   \<and> BulkWorkerError 0 \<in> set (logs (snd (flush small_config 0 failing_db ([''a'', ''b''], init_state))))
   \<and> insertedCount (runNaive small_config failing_db [Frame ''a'', Frame ''b''] init_state)
       = insertedCount (runNaive small_config working_db [Frame ''a'', Frame ''b''] init_state)
   \<and> insertedCount (runNaive small_config failing_db [Frame ''a'', Frame ''b''] init_state) = 2
   \<and> insertedCount (bufferedWorker small_config 0 failing_db [''a'', ''b''] init_state) = 2
   \<and> insertedCount (snd (bulkInsertWorker small_config 0 failing_db
         [Recv ''a'', Recv ''b'', Tick] ([''a'', ''b''], init_state))) = 4"
  using failed_writes_are_counted [of small_config NaiveDbError NaiveDone failing_db "''a''"
      init_state "[''a'', ''b'']" 0 "[Frame ''a'', Frame ''b'']" working_db "[''a'', ''b'']"
      "[Recv ''a'', Recv ''b'', Tick]"]
  by (simp add: eval_defs)

text \<open>
  C9. The naive handler executes, for each frame it reads, the single-placeholder
  statement with that frame as its only argument before it reads the next frame, and
  adds one to \<^verbatim>\<open>insertedCount\<close>; after ten frames from the initial state ten such
  statements have been executed and the counter is ten.
\<close>

theorem naive_writes_each_message_at_once:
  "execs (insertMessage cfg NaiveDbError NaiveDone db msg s) = execs s @ [(insertOne, [msg])]
   \<and> insertedCount (insertMessage cfg NaiveDbError NaiveDone db msg s) = insertedCount s + 1
   \<and> count_list insertOne CHR ''$'' = 1
   \<and> execs (runNaive cfg db (map Frame msgs) s) = execs s @ map (\<lambda>m. (insertOne, [m])) msgs
   \<and> insertedCount (runNaive cfg db (map Frame msgs) s) = insertedCount s + of_nat (length msgs)
   \<and> (length msgs = 10 \<longrightarrow>
        insertedCount (runNaive cfg db (map Frame msgs) init_state) = 10
        \<and> length (execs (runNaive cfg db (map Frame msgs) init_state)) = 10
        \<and> list_all (\<lambda>e. fst e = insertOne \<and> length (snd e) = 1)
             (execs (runNaive cfg db (map Frame msgs) init_state)))"
  by (simp add: execs_insertMessage insertedCount_insertMessage runNaive_frames
      insertOne_def init_state_def list_all_iff)

theorem naive_writes_each_message_at_once_witness:
  "length [''m0'', ''m1'', ''m2'', ''m3'', ''m4'', ''m5'', ''m6'', ''m7'', ''m8'', ''m9''] = 10
   \<and> insertedCount (runNaive server_config working_db
        (map Frame [''m0'', ''m1'', ''m2'', ''m3'', ''m4'', ''m5'', ''m6'', ''m7'', ''m8'', ''m9'']) init_state) = 10
   \<and> execs (runNaive server_config working_db
        (map Frame [''m0'', ''m1'', ''m2'', ''m3'', ''m4'', ''m5'', ''m6'', ''m7'', ''m8'', ''m9'']) init_state)
      = map (\<lambda>m. (''INSERT INTO messages (payload) VALUES ($1)'', [m]))
          [''m0'', ''m1'', ''m2'', ''m3'', ''m4'', ''m5'', ''m6'', ''m7'', ''m8'', ''m9'']"
  using naive_writes_each_message_at_once [of server_config working_db "''m0''" init_state
      "[''m0'', ''m1'', ''m2'', ''m3'', ''m4'', ''m5'', ''m6'', ''m7'', ''m8'', ''m9'']"]
  by (simp add: insertOne_def init_state_def)

lemma execs_flush:
  "execs (snd (flush cfg wid db (batch, s)))
     = (if batch = [] then execs s else execs s @ [buildBulkInsert batch])"
  by (simp add: flush_nonempty)

lemma fst_flush [simp]: "fst (flush cfg wid db (batch, s)) = []"
  by (cases "batch = []") (simp_all add: flush_nonempty)

lemma onRecv_cases:
  "onRecv cfg wid db msg (batch, s) =
     (if batchSize cfg \<le> Suc (length batch) then flush cfg wid db (batch @ [msg], s)
      else (batch @ [msg], s))"
  by (simp add: onRecv_def)

lemma bulk_bound:
  "0 < batchSize cfg \<Longrightarrow> length batch < batchSize cfg \<Longrightarrow>
   bulkInsertWorker cfg wid db evs (batch, s) = (batch', s') \<Longrightarrow>
   length batch' < batchSize cfg
   \<and> (list_all (withinBatchSize cfg) (execs s) \<longrightarrow> list_all (withinBatchSize cfg) (execs s'))"
proof (induction evs arbitrary: batch s)
  case Nil
  then show ?case by simp
next
  case (Cons e evs)
  show ?case
  proof (cases e)
    case (Recv msg)
    show ?thesis
    proof (cases "batchSize cfg \<le> Suc (length batch)")
      case True
      with Cons.prems have len: "length (batch @ [msg]) = batchSize cfg" by simp
      obtain s1 where f: "flush cfg wid db (batch @ [msg], s) = ([], s1)"
        by (metis fst_flush prod.collapse)
      have e1: "execs s1 = execs s @ [buildBulkInsert (batch @ [msg])]"
        using execs_flush [of cfg wid db "batch @ [msg]" s] f by simp
      have "bulkInsertWorker cfg wid db evs ([], s1) = (batch', s')"
        using Cons.prems Recv True f by (simp add: onRecv_cases)
      from Cons.IH [OF Cons.prems(1) _ this] Cons.prems(1)
      have "length batch' < batchSize cfg"
        and "list_all (withinBatchSize cfg) (execs s1) \<longrightarrow> list_all (withinBatchSize cfg) (execs s')"
        by simp_all
      moreover have "list_all (withinBatchSize cfg) (execs s) \<longrightarrow> list_all (withinBatchSize cfg) (execs s1)"
        using len by (simp add: e1 withinBatchSize_def)
      ultimately show ?thesis by blast
    next
      case False
      then have "bulkInsertWorker cfg wid db evs (batch @ [msg], s) = (batch', s')"
        using Cons.prems Recv by (simp add: onRecv_cases)
      moreover have "length (batch @ [msg]) < batchSize cfg"
        using False by simp
      ultimately show ?thesis
        using Cons.IH [OF Cons.prems(1)] by blast
    qed
  next
    case Tick
    obtain s1 where f: "flush cfg wid db (batch, s) = ([], s1)"
      by (metis fst_flush prod.collapse)
    have e1: "execs s1 = (if batch = [] then execs s else execs s @ [buildBulkInsert batch])"
      using execs_flush [of cfg wid db batch s] f by simp
    have "bulkInsertWorker cfg wid db evs ([], s1) = (batch', s')"
      using Cons.prems Tick f by simp
    from Cons.IH [OF Cons.prems(1) _ this] Cons.prems(1)
    have "length batch' < batchSize cfg"
      and "list_all (withinBatchSize cfg) (execs s1) \<longrightarrow> list_all (withinBatchSize cfg) (execs s')"
      by simp_all
    moreover have "list_all (withinBatchSize cfg) (execs s) \<longrightarrow> list_all (withinBatchSize cfg) (execs s1)"
      using Cons.prems(2) by (simp add: e1 withinBatchSize_def)
    ultimately show ?thesis by blast
  qed
qed

text \<open>
  C4. With a positive \<^verbatim>\<open>batchSize\<close> (the source's is 5000), whatever a bulk worker
  has consumed, its batch at the head of the loop is shorter than \<^verbatim>\<open>batchSize\<close>;
  hence when an append makes the size test succeed the batch has exactly
  \<^verbatim>\<open>batchSize\<close> messages and is flushed at once, and no statement the worker executes
  binds more than \<^verbatim>\<open>batchSize\<close> messages.
\<close>

theorem size_triggered_flush_within_batchSize:
  assumes "0 < batchSize cfg"
    and "bulkInsertWorker cfg wid db evs ([], s) = (batch, s')"
  shows "length batch < batchSize cfg
       \<and> (\<forall>msg. batchSize cfg \<le> length (batch @ [msg]) \<longrightarrow>
              length (batch @ [msg]) = batchSize cfg
              \<and> onRecv cfg wid db msg (batch, s') = flush cfg wid db (batch @ [msg], s'))
       \<and> (list_all (withinBatchSize cfg) (execs s) \<longrightarrow> list_all (withinBatchSize cfg) (execs s'))"
proof -
  have b: "length batch < batchSize cfg
      \<and> (list_all (withinBatchSize cfg) (execs s) \<longrightarrow> list_all (withinBatchSize cfg) (execs s'))"
    using bulk_bound [OF assms(1) _ assms(2)] assms(1) by simp
  then show ?thesis
    by (auto simp: onRecv_cases)
qed

theorem size_triggered_flush_within_batchSize_witness:
  "0 < batchSize small_config
   \<and> bulkInsertWorker small_config 0 working_db
        [Recv ''m1'', Recv ''m2'', Recv ''m3'', Recv ''m4'', Recv ''m5''] ([], init_state)
      = ([''m4'', ''m5''],
         \<lparr> insertedCount = 3,
           execs = [(''INSERT INTO messages (payload) VALUES ($1),($2),($3)'', [''m1'', ''m2'', ''m3''])],
           logs = [] \<rparr>)
   \<and> length [''m4'', ''m5''] < batchSize small_config
   \<and> batchSize small_config \<le> length ([''m4'', ''m5''] @ [''m6''])
   \<and> length ([''m4'', ''m5''] @ [''m6'']) = batchSize small_config
   \<and> list_all (withinBatchSize small_config) (execs init_state)
   \<and> list_all (withinBatchSize small_config)
        [(''INSERT INTO messages (payload) VALUES ($1),($2),($3)'', [''m1'', ''m2'', ''m3''])]
   \<and> 0 < batchSize server_config
   \<and> bulkInsertWorker server_config 0 working_db [Recv ''m1'', Tick, Recv ''m2''] ([], init_state)
      = ([''m2''],
         \<lparr> insertedCount = 1,
           execs = [(''INSERT INTO messages (payload) VALUES ($1)'', [''m1''])],
           logs = [] \<rparr>)
   \<and> length [''m2''] < batchSize server_config"
proof -
  have r: "bulkInsertWorker small_config 0 working_db
        [Recv ''m1'', Recv ''m2'', Recv ''m3'', Recv ''m4'', Recv ''m5''] ([], init_state)
      = ([''m4'', ''m5''],
         \<lparr> insertedCount = 3,
           execs = [(''INSERT INTO messages (payload) VALUES ($1),($2),($3)'', [''m1'', ''m2'', ''m3''])],
           logs = [] \<rparr>)"
    by (simp add: eval_defs)
  have p: "0 < batchSize small_config"
    by (simp add: small_config_def)
  have r': "bulkInsertWorker server_config 0 working_db [Recv ''m1'', Tick, Recv ''m2''] ([], init_state)
      = ([''m2''],
         \<lparr> insertedCount = 1,
           execs = [(''INSERT INTO messages (payload) VALUES ($1)'', [''m1''])],
           logs = [] \<rparr>)"
    by (simp add: eval_defs server_config_def clientCount_def messagesPerClient_def)
  have p': "0 < batchSize server_config"
    by (simp add: server_config_def)
  show ?thesis
    using size_triggered_flush_within_batchSize [OF p r]
      size_triggered_flush_within_batchSize [OF p' r'] p r p' r'
    by (simp add: init_state_def small_config_def server_config_def withinBatchSize_def)
qed

text \<open>
  C10. \<^verbatim>\<open>buildBulkInsert\<close> on the empty batch would yield the statement that ends in
  \<open>VALUES \<close> with no tuple and no argument, but \<^verbatim>\<open>flush\<close> executes nothing for an
  empty batch and builds its statement from a non-empty batch otherwise, so every
  statement a bulk worker executes has at least one tuple.
\<close>

theorem bulk_statements_never_empty:
  "buildBulkInsert [] = (''INSERT INTO messages (payload) VALUES '', [])
   \<and> execs (snd (flush cfg wid db ([], s))) = execs s
   \<and> (batch \<noteq> [] \<longrightarrow>
        execs (snd (flush cfg wid db (batch, s))) = execs s @ [buildBulkInsert batch]
        \<and> nonEmptyInsert (buildBulkInsert batch))
   \<and> (list_all nonEmptyInsert (execs s) \<longrightarrow>
        list_all nonEmptyInsert (execs (snd (bulkInsertWorker cfg wid db evs (batch, s)))))"
proof -
  have ne: "b \<noteq> [] \<Longrightarrow> nonEmptyInsert (buildBulkInsert b)" for b
    by (simp add: nonEmptyInsert_def)
  have fl: "list_all nonEmptyInsert (execs s) \<Longrightarrow>
      list_all nonEmptyInsert (execs (snd (flush cfg wid db (b, s))))" for b s
    by (simp add: execs_flush ne)
  have loop: "list_all nonEmptyInsert (execs s) \<Longrightarrow>
      list_all nonEmptyInsert (execs (snd (bulkInsertWorker cfg wid db evs (b, s))))" for b s
  proof (induction evs arbitrary: b s)
    case Nil
    then show ?case by simp
  next
    case (Cons e evs)
    show ?case
    proof (cases e)
      case (Recv msg)
      have "list_all nonEmptyInsert (execs (snd (onRecv cfg wid db msg (b, s))))"
        using fl [OF Cons.prems, of "b @ [msg]"] Cons.prems by (simp add: onRecv_cases)
      then show ?thesis
        using Cons.IH [of "snd (onRecv cfg wid db msg (b, s))" "fst (onRecv cfg wid db msg (b, s))"]
          Recv by simp
    next
      case Tick
      obtain s1 where f: "flush cfg wid db (b, s) = ([], s1)"
        by (metis fst_flush prod.collapse)
      have "list_all nonEmptyInsert (execs s1)"
        using fl [OF Cons.prems, of b] f by simp
      then show ?thesis
        using Cons.IH [of s1 "[]"] Tick f by simp
    qed
  qed
  have empty: "buildBulkInsert [] = (''INSERT INTO messages (payload) VALUES '', [])"
    by (simp add: buildBulkInsert_def insertPrefix_def)
  show ?thesis
    using loop [of s batch] empty by (simp add: execs_flush ne)
qed

theorem bulk_statements_never_empty_witness:
  "buildBulkInsert [] = (''INSERT INTO messages (payload) VALUES '', [])
   \<and> [''a''] \<noteq> []
   \<and> nonEmptyInsert (buildBulkInsert [''a''])
   \<and> list_all nonEmptyInsert (execs init_state)
   \<and> execs (snd (bulkInsertWorker small_config 0 working_db [Tick, Recv ''a'', Tick, Tick] ([], init_state)))
       = [(''INSERT INTO messages (payload) VALUES ($1)'', [''a''])]
   \<and> list_all nonEmptyInsert
        (execs (snd (bulkInsertWorker small_config 0 working_db [Tick, Recv ''a'', Tick, Tick] ([], init_state))))"
  using bulk_statements_never_empty [of small_config 0 working_db init_state "[''a'']"
      "[Tick, Recv ''a'', Tick, Tick]"]
    bulk_statements_never_empty [of small_config 0 working_db init_state "[]"
      "[Tick, Recv ''a'', Tick, Tick]"]
  by (simp add: eval_defs nonEmptyInsert_def)

section \<open>The steps of one goroutine make up the functions above\<close>

text \<open>
  Run without interruption, the three steps of a worker or of a naive handler are
  \<open>flush\<close> and \<open>insertMessage\<close>.
\<close>

lemmas step_defs =
  handlerAt_def workerAt_def setHandler_def setWorker_def execAndLog_def dbExec_def
  atomicAddInt64_def atomicLoadInt64_def reportDone_def logPrint_def insertOne_def
  working_db_def failing_db_def server_config_def clientCount_def messagesPerClient_def

lemma flush_is_three_steps:
  assumes "workerAt s w = Some (AtExec, batch)" and "batch \<noteq> []"
  shows "run cfg db Bulk [DoExec w, DoAdd w, DoLoad w] s
       = Some (setWorker w (Receiving, fst (flush cfg w db (batch, shared s)))
                 (s\<lparr> shared := snd (flush cfg w db (batch, shared s)) \<rparr>))"
  using assms
  by (auto simp: flush_def workerAt_def setWorker_def execAndLog_def buildBulkInsert_eq
      split: prod.splits if_splits)

lemma insertMessage_is_three_steps_naive:
  assumes "handlerAt s h = Some (Inserting msg)"
  shows "run cfg db Naive [DoExec h, DoAdd h, DoLoad h] s
       = Some (setHandler h Reading
                 (s\<lparr> shared := insertMessage cfg NaiveDbError NaiveDone db msg (shared s) \<rparr>))"
  using assms
  by (auto simp: insertMessage_def handlerAt_def setHandler_def execAndLog_def
      split: prod.splits if_splits)

lemma insertMessage_is_three_steps_buffered:
  assumes "workerAt s w = Some (AtExec, [msg])"
  shows "run cfg db Buffered [DoExec w, DoAdd w, DoLoad w] s
       = Some (setWorker w (Receiving, [])
                 (s\<lparr> shared := insertMessage cfg (BufferedWorkerError w) BufferedDone db msg (shared s) \<rparr>))"
  using assms
  by (auto simp: insertMessage_def workerAt_def setWorker_def execAndLog_def
      split: prod.splits if_splits)

section \<open>A full channel blocks the sender\<close>

lemma chan_setHandler [simp]: "chan (setHandler h x s) = chan s"
  by (simp add: setHandler_def)

lemma chan_setWorker [simp]: "chan (setWorker h x s) = chan s"
  by (simp add: setWorker_def)

lemma chan_execAndLog [simp]: "chan (execAndLog db l q a s) = chan s"
  by (simp add: execAndLog_def split: prod.splits)

lemma fire_chan_bound:
  "fire cfg db md a s = Some s' \<Longrightarrow> length (chan s) \<le> channelBufferSize cfg \<Longrightarrow>
   length (chan s') \<le> channelBufferSize cfg"
  by (cases md; cases a)
    (auto split: if_splits option.splits handler.splits list.splits prod.splits)

lemma run_chan_bound:
  "run cfg db md as s = Some s' \<Longrightarrow> length (chan s) \<le> channelBufferSize cfg \<Longrightarrow>
   length (chan s') \<le> channelBufferSize cfg"
proof (induction as arbitrary: s)
  case Nil
  then show ?case by simp
next
  case (Cons a as)
  then show ?case
    by (auto split: option.splits dest: fire_chan_bound)
qed

lemma send_full: "length (chan s) = channelBufferSize cfg \<Longrightarrow> fire cfg db md (Send h) s = None"
  by (cases md) (auto split: option.splits handler.splits)

lemma send_room:
  "md \<noteq> Naive \<Longrightarrow> handlerAt s h = Some (Sending msg) \<Longrightarrow> length (chan s) < channelBufferSize cfg \<Longrightarrow>
   fire cfg db md (Send h) s = Some (setHandler h Reading (s\<lparr> chan := chan s @ [msg] \<rparr>))"
  by (cases md) auto

lemma handlerAt_setWorker [simp]: "handlerAt (setWorker w x s) h = handlerAt s h"
  by (simp add: handlerAt_def setWorker_def)

lemma handlerAt_execAndLog [simp]: "handlerAt (execAndLog db l q a s) h = handlerAt s h"
  by (simp add: handlerAt_def execAndLog_def split: prod.splits)

lemma handlerAt_setHandler:
  "handlerAt (setHandler h' x s) h = (if h = h' \<and> h < length (handlers s) then Some x else handlerAt s h)"
  by (auto simp: handlerAt_def setHandler_def)

lemma handlerAt_updates [simp]:
  "handlerAt (s\<lparr> delivered := d \<rparr>) h = handlerAt s h"
  "handlerAt (s\<lparr> chan := c \<rparr>) h = handlerAt s h"
  "handlerAt (s\<lparr> shared := sh \<rparr>) h = handlerAt s h"
  by (simp_all add: handlerAt_def)

lemma sending_kept:
  "handlerAt s h = Some (Sending msg) \<Longrightarrow> fire cfg db md a s = Some s' \<Longrightarrow> a \<noteq> Send h \<Longrightarrow>
   handlerAt s' h = Some (Sending msg)"
  by (cases md; cases a)
    (auto simp: handlerAt_setHandler split: if_splits option.splits handler.splits list.splits prod.splits)

lemma full_channel_freed_by_receive:
  "fire cfg db md a s = Some s' \<Longrightarrow> length (chan s') < length (chan s) \<Longrightarrow> \<exists>w. a = RecvMsg w"
  by (cases md; cases a)
    (auto split: if_splits option.splits handler.splits list.splits prod.splits)

lemma chan_init: "chan (init_system conns nw) = []"
  by (simp add: init_system_def)

text \<open>
  C8. In every state the server reaches, the channel holds at most
  \<^verbatim>\<open>channelBufferSize\<close> messages (500000 in the source). When it holds exactly that
  many, a handler's send cannot proceed; the handler keeps its message through every
  step of the other goroutines; only a worker's receive makes room; and once there is
  room the send appends exactly that message to the channel. A send has no other
  outcome: no error, no dropped message.
\<close>

theorem send_blocks_while_channel_full:
  assumes "run cfg db md as (init_system conns nw) = Some s"
  shows "channelBufferSize server_config = 500000
       \<and> length (chan s) \<le> channelBufferSize cfg
       \<and> (length (chan s) = channelBufferSize cfg \<longrightarrow> fire cfg db md (Send h) s = None)
       \<and> (\<forall>a s'. handlerAt s h = Some (Sending msg) \<and> fire cfg db md a s = Some s' \<and> a \<noteq> Send h
              \<longrightarrow> handlerAt s' h = Some (Sending msg))
       \<and> (\<forall>a s'. length (chan s) = channelBufferSize cfg \<and> fire cfg db md a s = Some s'
              \<and> length (chan s') < channelBufferSize cfg \<longrightarrow> (\<exists>w. a = RecvMsg w))
       \<and> (md \<noteq> Naive \<and> handlerAt s h = Some (Sending msg) \<and> length (chan s) < channelBufferSize cfg
              \<longrightarrow> fire cfg db md (Send h) s = Some (setHandler h Reading (s\<lparr> chan := chan s @ [msg] \<rparr>)))"
proof -
  have "channelBufferSize server_config = 500000"
    by (simp add: server_config_def)
  moreover have "length (chan s) \<le> channelBufferSize cfg"
    using run_chan_bound [OF assms] by (simp add: chan_init)
  moreover have "length (chan s) = channelBufferSize cfg \<longrightarrow> fire cfg db md (Send h) s = None"
    by (simp add: send_full)
  moreover have "\<forall>a s'. handlerAt s h = Some (Sending msg) \<and> fire cfg db md a s = Some s' \<and> a \<noteq> Send h
      \<longrightarrow> handlerAt s' h = Some (Sending msg)"
    using sending_kept by blast
  moreover have "\<forall>a s'. length (chan s) = channelBufferSize cfg \<and> fire cfg db md a s = Some s'
      \<and> length (chan s') < channelBufferSize cfg \<longrightarrow> (\<exists>w. a = RecvMsg w)"
    using full_channel_freed_by_receive by metis
  moreover have "md \<noteq> Naive \<and> handlerAt s h = Some (Sending msg) \<and> length (chan s) < channelBufferSize cfg
      \<longrightarrow> fire cfg db md (Send h) s = Some (setHandler h Reading (s\<lparr> chan := chan s @ [msg] \<rparr>))"
    using send_room by blast
  ultimately show ?thesis
    by blast
qed

lemma init_system_examples:
  "init_system 2 0 =
     \<lparr> shared = init_state, chan = [], handlers = [Reading, Reading], workers = [],
       delivered = [] \<rparr>"
  "init_system (Suc 0) 2 =
     \<lparr> shared = init_state, chan = [], handlers = [Reading],
       workers = [(Receiving, []), (Receiving, [])], delivered = [] \<rparr>"
  "init_system 3 2 =
     \<lparr> shared = init_state, chan = [], handlers = [Reading, Reading, Reading],
       workers = [(Receiving, []), (Receiving, [])], delivered = [] \<rparr>"
  by (simp_all add: init_system_def numeral_2_eq_2 numeral_3_eq_3)

lemma run_full_channel:
  "run small_config working_db Buffered
     [ReadFrame 0 ''m1'', Send 0, ReadFrame 1 ''m2'', Send 1, ReadFrame 2 ''m3'']
     (init_system 3 2) = Some full_channel"
  by (simp add: full_channel_def init_system_examples init_state_def small_config_def step_defs)

theorem send_blocks_while_channel_full_witness:
  "run small_config working_db Buffered
     [ReadFrame 0 ''m1'', Send 0, ReadFrame 1 ''m2'', Send 1, ReadFrame 2 ''m3'']
     (init_system 3 2) = Some full_channel
   \<and> length (chan full_channel) = channelBufferSize small_config
   \<and> handlerAt full_channel 2 = Some (Sending ''m3'')
   \<and> fire small_config working_db Buffered (Send 2) full_channel = None
   \<and> map_option (\<lambda>s. (chan s, handlerAt s 2))
        (fire small_config working_db Buffered (RecvMsg 0) full_channel)
       = Some ([''m2''], Some (Sending ''m3''))
   \<and> map_option (\<lambda>s. (chan s, handlerAt s 2))
        (run small_config working_db Buffered [RecvMsg 0, Send 2] full_channel)
       = Some ([''m2'', ''m3''], Some Reading)"
  using send_blocks_while_channel_full [OF run_full_channel, of 2 "''m3''"] run_full_channel
  by (simp add: full_channel_def init_state_def small_config_def step_defs)

section \<open>Every delivered message is written once and counted once\<close>

lemma sum_list_update_group:
  fixes xs :: "'b::ab_group_add list"
  shows "i < length xs \<Longrightarrow> sum_list (xs[i := y]) = sum_list xs - xs ! i + y"
proof (induction xs arbitrary: i)
  case Nil
  then show ?case by simp
next
  case (Cons x xs)
  then show ?case by (cases i) (simp_all add: algebra_simps)
qed

lemma buildBulkInsert_args: "buildBulkInsert batch = (query, args) \<Longrightarrow> args = batch"
  by (simp add: buildBulkInsert_eq)

lemma occurrences_simps [simp]:
  "occurrences x [] = 0"
  "occurrences x (xs @ ys) = occurrences x xs + occurrences x ys"
  "occurrences x (y # ys) = (if x = y then 1 else 0) + occurrences x ys"
  by (auto simp: occurrences_def count_list_append)

lemma written_simps [simp]:
  "written (s\<lparr> delivered := d \<rparr>) = written s"
  "written (s\<lparr> chan := c \<rparr>) = written s"
  "written (setHandler h y s) = written s"
  "written (setWorker w z s) = written s"
  "written (s\<lparr> shared := atomicAddInt64 n (shared s) \<rparr>) = written s"
  "written (s\<lparr> shared := reportDone cfg l (shared s) \<rparr>) = written s"
  "written (execAndLog db l q args s) = written s @ args"
  by (simp_all add: written_def setHandler_def setWorker_def atomicAddInt64_def reportDone_def
      logPrint_def execAndLog_def dbExec_def)

lemma count_simps [simp]:
  "insertedCount (shared (s\<lparr> delivered := d \<rparr>)) = insertedCount (shared s)"
  "insertedCount (shared (s\<lparr> chan := c \<rparr>)) = insertedCount (shared s)"
  "insertedCount (shared (setHandler h y s)) = insertedCount (shared s)"
  "insertedCount (shared (setWorker w z s)) = insertedCount (shared s)"
  "insertedCount (shared (s\<lparr> shared := atomicAddInt64 n (shared s) \<rparr>)) = insertedCount (shared s) + n"
  "insertedCount (shared (s\<lparr> shared := reportDone cfg l (shared s) \<rparr>)) = insertedCount (shared s)"
  "insertedCount (shared (execAndLog db l q args s)) = insertedCount (shared s)"
  by (simp_all add: setHandler_def setWorker_def atomicAddInt64_def reportDone_def
      logPrint_def execAndLog_def dbExec_def)

lemma insertedCount_atomicAddInt64 [simp]:
  "insertedCount (atomicAddInt64 n sh) = insertedCount sh + n"
  by (simp add: atomicAddInt64_def)

lemma delivered_simps [simp]:
  "delivered (setHandler h y s) = delivered s"
  "delivered (setWorker w z s) = delivered s"
  "delivered (execAndLog db l q args s) = delivered s"
  by (simp_all add: setHandler_def setWorker_def execAndLog_def split: prod.splits)

lemma outstanding_simps [simp]:
  "outstanding md x (s\<lparr> delivered := d \<rparr>) = outstanding md x s"
  "outstanding md x (s\<lparr> shared := sh \<rparr>) = outstanding md x s"
  "outstanding md x (execAndLog db l q args s) = outstanding md x s"
  "outstanding md x (s\<lparr> chan := c \<rparr>) = outstanding md x s - occurrences x (chan s) + occurrences x c"
  by (simp_all add: outstanding_def execAndLog_def split: prod.splits)

lemma outstanding_setHandler:
  "handlerAt s h = Some old \<Longrightarrow>
   outstanding md x (setHandler h new s)
     = outstanding md x s - occurrences x (handlerUnwritten old) + occurrences x (handlerUnwritten new)"
  by (auto simp: outstanding_def setHandler_def handlerAt_def map_update sum_list_update_group
      split: if_splits)

lemma outstanding_setWorker:
  "workerAt s w = Some old \<Longrightarrow>
   outstanding md x (setWorker w new s)
     = outstanding md x s - occurrences x (workerUnwritten md old) + occurrences x (workerUnwritten md new)"
  by (auto simp: outstanding_def setWorker_def workerAt_def map_update sum_list_update_group
      split: if_splits)

lemma workerAt_updates [simp]:
  "workerAt (s\<lparr> delivered := d \<rparr>) w = workerAt s w"
  "workerAt (s\<lparr> chan := c \<rparr>) w = workerAt s w"
  "workerAt (s\<lparr> shared := sh \<rparr>) w = workerAt s w"
  "workerAt (execAndLog db l q args s) w = workerAt s w"
  "workerAt (setHandler h y s) w = workerAt s w"
  by (simp_all add: workerAt_def execAndLog_def setHandler_def split: prod.splits)

lemma fire_keeps_message_balance:
  "fire cfg db md a s = Some s' \<Longrightarrow>
   occurrences x (delivered s') - occurrences x (written s') - outstanding md x s'
     = occurrences x (delivered s) - occurrences x (written s) - outstanding md x s"
  by (cases md; cases a)
    (auto simp: outstanding_setHandler outstanding_setWorker dest: buildBulkInsert_args
      split: if_splits option.splits handler.splits list.splits prod.splits)

lemma uncounted_simps [simp]:
  "uncounted md (s\<lparr> delivered := d \<rparr>) = uncounted md s"
  "uncounted md (s\<lparr> shared := sh \<rparr>) = uncounted md s"
  "uncounted md (execAndLog db l q args s) = uncounted md s"
  "uncounted md (s\<lparr> chan := c \<rparr>) = uncounted md s - of_nat (length (chan s)) + of_nat (length c)"
  by (simp_all add: uncounted_def execAndLog_def split: prod.splits)

lemma uncounted_setHandler:
  "handlerAt s h = Some old \<Longrightarrow>
   uncounted md (setHandler h new s)
     = uncounted md s - of_nat (handlerUncounted old) + of_nat (handlerUncounted new)"
  by (auto simp: uncounted_def setHandler_def handlerAt_def map_update sum_list_update_group
      split: if_splits)

lemma uncounted_setWorker:
  "workerAt s w = Some old \<Longrightarrow>
   uncounted md (setWorker w new s)
     = uncounted md s - of_nat (workerUncounted md old) + of_nat (workerUncounted md new)"
  by (auto simp: uncounted_def setWorker_def workerAt_def map_update sum_list_update_group
      split: if_splits)

lemma fire_keeps_counter_balance:
  "fire cfg db md a s = Some s' \<Longrightarrow>
   of_nat (length (delivered s')) - insertedCount (shared s') - uncounted md s'
     = of_nat (length (delivered s)) - insertedCount (shared s) - uncounted md s"
  by (cases md; cases a)
    (auto simp: uncounted_setHandler uncounted_setWorker
      split: if_splits option.splits handler.splits list.splits prod.splits)

lemma run_keeps_balances:
  "run cfg db md as s = Some s' \<Longrightarrow>
   occurrences x (delivered s') - occurrences x (written s') - outstanding md x s'
     = occurrences x (delivered s) - occurrences x (written s) - outstanding md x s
   \<and> of_nat (length (delivered s')) - insertedCount (shared s') - uncounted md s'
     = of_nat (length (delivered s)) - insertedCount (shared s) - uncounted md s"
proof (induction as arbitrary: s)
  case Nil
  then show ?case by simp
next
  case (Cons a as)
  from Cons.prems obtain s1 where f: "fire cfg db md a s = Some s1"
    and r: "run cfg db md as s1 = Some s'"
    by (auto split: option.splits)
  show ?case
    using Cons.IH [OF r] fire_keeps_message_balance [OF f, of x]
      fire_keeps_counter_balance [OF f]
    by simp
qed

lemma idle_outstanding: "idle s \<Longrightarrow> outstanding md x s = 0"
proof -
  have h: "list_all (\<lambda>h. h = Reading \<or> h = Returned) hs \<Longrightarrow>
      (\<Sum>h\<leftarrow>hs. occurrences x (handlerUnwritten h)) = 0" for hs
    by (induction hs) auto
  have w: "list_all (\<lambda>w. w = (Receiving, [])) ws \<Longrightarrow>
      (\<Sum>w\<leftarrow>ws. occurrences x (workerUnwritten md w)) = 0" for ws
    by (induction ws; cases md) auto
  assume "idle s"
  then show ?thesis
    by (simp add: idle_def outstanding_def h w)
qed

lemma idle_uncounted: "idle s \<Longrightarrow> uncounted md s = 0"
proof -
  have h: "list_all (\<lambda>h. h = Reading \<or> h = Returned) hs \<Longrightarrow>
      (\<Sum>h\<leftarrow>hs. (of_nat (handlerUncounted h) :: int64)) = 0" for hs
    by (induction hs) auto
  have w: "list_all (\<lambda>w. w = (Receiving, [])) ws \<Longrightarrow>
      (\<Sum>w\<leftarrow>ws. (of_nat (workerUncounted md w) :: int64)) = 0" for ws
    by (induction ws; cases md) auto
  assume "idle s"
  then show ?thesis
    by (simp add: idle_def uncounted_def h w)
qed

lemma idle_init: "idle (init_system conns nw)"
  by (simp add: idle_def init_system_def list_all_iff)

lemma sint_of_nat_small:
  "n < 2 ^ 63 \<Longrightarrow> sint (of_nat n :: int64) = int n"
proof -
  assume "n < 2 ^ 63"
  then have "int n < 2 ^ 63"
    by (metis of_nat_less_iff of_nat_numeral of_nat_power)
  then show ?thesis
    by (simp add: signed_of_nat signed_take_bit_int_eq_self)
qed

text \<open>
  C6. In each of the three modes, for every database (so also for one that never
  fails), every number of connections and workers and every schedule: once nothing is
  left in flight (empty channel, no handler holding a message, every worker waiting
  with an empty batch, which for a bulk worker means that the ticker has flushed its
  last partial batch), \<^verbatim>\<open>insertedCount\<close> is the number \<open>N\<close> of delivered messages
  (as an \<^verbatim>\<open>int64\<close>; read as a signed number it is \<open>N\<close> for \<open>N < 2^63\<close>), and the
  arguments of the executed statements are the delivered messages, each as often as it
  was delivered, \<open>N\<close> in all.
\<close>

theorem no_message_lost_or_counted_twice:
  assumes "run cfg db md as (init_system conns nw) = Some s"
    and "idle s"
  shows "insertedCount (shared s) = of_nat (length (delivered s))
       \<and> (length (delivered s) < 2 ^ 63 \<longrightarrow> sint (insertedCount (shared s)) = int (length (delivered s)))
       \<and> mset (written s) = mset (delivered s)
       \<and> length (written s) = length (delivered s)"
proof -
  let ?i = "init_system conns nw"
  have i0: "delivered ?i = []" "written ?i = []" "insertedCount (shared ?i) = 0"
    by (simp_all add: init_system_def written_def init_state_def)
  have c: "insertedCount (shared s) = of_nat (length (delivered s))"
    using run_keeps_balances [OF assms(1), of "[]"] idle_uncounted [OF assms(2), of md]
      idle_uncounted [OF idle_init, of md conns nw] i0
    by simp
  have "occurrences x (delivered s) = occurrences x (written s)" for x
    using run_keeps_balances [OF assms(1), of x] idle_outstanding [OF assms(2), of md x]
      idle_outstanding [OF idle_init, of md x conns nw] i0
    by simp
  then have m: "mset (written s) = mset (delivered s)"
    by (simp add: multiset_eq_iff occurrences_def count_mset)
  show ?thesis
    using c m mset_eq_length [OF m] by (simp add: sint_of_nat_small)
qed

lemmas example_defs =
  init_system_examples init_state_def small_config_def step_defs
  buildBulkInsert_eq insertPrefix_def placeholder_def itoa.simps digit_def upt_rec

lemma run_naive_example:
  "run small_config working_db Naive naive_example (init_system 2 0) = Some naive_example_end"
  by (simp add: naive_example_def naive_example_end_def example_defs)

lemma run_buffered_example:
  "run small_config working_db Buffered buffered_example (init_system 1 2) = Some buffered_example_end"
  by (simp add: buffered_example_def buffered_example_end_def example_defs)

lemma run_bulk_example:
  "run small_config working_db Bulk bulk_example (init_system 1 2) = Some bulk_example_end"
  by (simp add: bulk_example_def bulk_example_end_def example_defs)

theorem no_message_lost_or_counted_twice_witness:
  "run small_config working_db Naive naive_example (init_system 2 0) = Some naive_example_end
   \<and> idle naive_example_end
   \<and> sint (insertedCount (shared naive_example_end)) = 2
   \<and> written naive_example_end = [''m2'', ''m1'']
   \<and> delivered naive_example_end = [''m1'', ''m2'']
   \<and> run small_config working_db Buffered buffered_example (init_system 1 2) = Some buffered_example_end
   \<and> idle buffered_example_end
   \<and> sint (insertedCount (shared buffered_example_end)) = 2
   \<and> written buffered_example_end = [''m2'', ''m1'']
   \<and> delivered buffered_example_end = [''m1'', ''m2'']
   \<and> run small_config working_db Bulk bulk_example (init_system 1 2) = Some bulk_example_end
   \<and> idle bulk_example_end
   \<and> sint (insertedCount (shared bulk_example_end)) = 4
   \<and> written bulk_example_end = [''m1'', ''m2'', ''m3'', ''m4'']
   \<and> delivered bulk_example_end = [''m1'', ''m2'', ''m3'', ''m4'']"
proof -
  have i: "idle naive_example_end" "idle buffered_example_end" "idle bulk_example_end"
    by (simp_all add: idle_def naive_example_end_def buffered_example_end_def bulk_example_end_def)
  show ?thesis
    using no_message_lost_or_counted_twice [OF run_naive_example i(1)]
      no_message_lost_or_counted_twice [OF run_buffered_example i(2)]
      no_message_lost_or_counted_twice [OF run_bulk_example i(3)]
      run_naive_example run_buffered_example run_bulk_example i
    by (simp add: written_def naive_example_end_def buffered_example_end_def bulk_example_end_def)
qed

section \<open>Addition and load are two steps\<close>

lemma run_append:
  "run cfg db md (as @ bs) s =
     (case run cfg db md as s of None \<Rightarrow> None | Some s' \<Rightarrow> run cfg db md bs s')"
  by (induction as arbitrary: s) (auto split: option.splits)

lemma below_total: "n < 1000000 \<Longrightarrow> (of_nat n :: int64) \<noteq> 1000000"
proof
  assume n: "n < 1000000" and e: "(of_nat n :: int64) = 1000000"
  have "unat (of_nat n :: int64) = n"
    using n by (simp add: unat_of_nat)
  then show False
    using e n by simp
qed

lemma one_by_one_quiet:
  assumes "quiet c s" and "Suc c < 1000000"
  shows "\<exists>s'. run server_config working_db Buffered (one_by_one msg) s = Some s' \<and> quiet (Suc c) s'"
proof -
  have "(of_nat c :: int64) + 1 \<noteq> 1000000"
    using below_total [OF assms(2)] by simp
  then show ?thesis
    using assms(1) by (simp add: one_by_one_def quiet_def step_defs)
qed

lemma many_one_by_one_quiet:
  "quiet c s \<Longrightarrow> c + n < 1000000 \<Longrightarrow>
   \<exists>s'. run server_config working_db Buffered (concat (replicate n (one_by_one msg))) s = Some s'
        \<and> quiet (c + n) s'"
proof (induction n arbitrary: c s)
  case 0
  then show ?case by simp
next
  case (Suc n)
  from one_by_one_quiet [OF Suc.prems(1), of msg] Suc.prems(2)
  obtain s1 where s1: "run server_config working_db Buffered (one_by_one msg) s = Some s1"
    and q1: "quiet (Suc c) s1"
    by auto
  from Suc.IH [OF q1] Suc.prems(2)
  obtain s' where "run server_config working_db Buffered (concat (replicate n (one_by_one msg))) s1 = Some s'"
    and "quiet (Suc c + n) s'"
    by auto
  then show ?case
    using s1 by (simp add: run_append)
qed

lemma racing_pair_logs_twice:
  assumes "quiet 999998 s"
  shows "\<exists>s'. run server_config working_db Buffered racing_pair s = Some s'
     \<and> length (delivered s') = 1000000
     \<and> insertedCount (shared s') = 1000000
     \<and> filter (\<lambda>l. l = BufferedDone) (logs (shared s')) = [BufferedDone, BufferedDone]"
  using assms by (simp add: racing_pair_def quiet_def step_defs)

lemma quiet_init: "quiet 0 (init_system 2 (workerCount server_config))"
proof -
  have "workerCount server_config = Suc (Suc (Suc (Suc 0)))"
    by (simp add: server_config_def)
  then show ?thesis
    by (simp add: quiet_def init_system_def init_state_def numeral_2_eq_2)
qed

text \<open>
  C1. The completion line is not logged exactly once under every interleaving. With the
  source's configuration, the buffered mode, a database that never fails, and exactly
  \<^verbatim>\<open>totalMessages\<close> = 1000000 messages delivered, the schedule
  \<open>double_done_schedule\<close> ends with the counter at 1000000 and the completion line
  logged twice: the last two workers both add before either loads, and each then loads
  the expected total, because the value compared is a second read of the counter, not
  the result of the worker's own addition.
\<close>

theorem completion_logged_twice:
  "map_option
     (\<lambda>s. (length (delivered s), insertedCount (shared s),
           filter (\<lambda>l. l = BufferedDone) (logs (shared s))))
     (run server_config working_db Buffered double_done_schedule
        (init_system 2 (workerCount server_config)))
   = Some (1000000, totalMessages server_config, [BufferedDone, BufferedDone])"
proof -
  have "0 + warm_up < 1000000"
    by (simp add: warm_up_def)
  from many_one_by_one_quiet [OF quiet_init this, of "''m''"]
  obtain s1 where s1: "run server_config working_db Buffered
        (concat (replicate warm_up (one_by_one ''m''))) (init_system 2 (workerCount server_config)) = Some s1"
    and q1: "quiet (0 + warm_up) s1"
    by blast
  have "quiet 999998 s1"
    using q1 by (simp add: warm_up_def)
  from racing_pair_logs_twice [OF this]
  obtain s2 where s2: "run server_config working_db Buffered racing_pair s1 = Some s2"
    and "length (delivered s2) = 1000000"
    and "insertedCount (shared s2) = 1000000"
    and "filter (\<lambda>l. l = BufferedDone) (logs (shared s2)) = [BufferedDone, BufferedDone]"
    by blast
  moreover have "run server_config working_db Buffered double_done_schedule
        (init_system 2 (workerCount server_config)) = Some s2"
    unfolding double_done_schedule_def run_append s1 using s2 by simp
  moreover have "totalMessages server_config = 1000000"
    by (simp add: server_config_def clientCount_def messagesPerClient_def)
  ultimately show ?thesis
    by simp
qed

end
